theory Spec2Isabelle
  imports Main "HOL-Library.Word"
begin

section \<open>Timesheet model of \<^verbatim>\<open>timesheet.py\<close>\<close>

text \<open>
  The module reads animation timesheets in three formats (STS, TDTS, XDTS) into one
  model: a \<^verbatim>\<open>Timesheet\<close> holding \<^verbatim>\<open>Layer\<close>s, each a name and a list of
  \<^verbatim>\<open>Frame(frame, cell)\<close> change points. Python integers are unbounded, so they are
  \<open>int\<close> here. Text is \<open>string\<close>: a character stands for the code point of the same
  number, so the text of this development ranges over U+0000 to U+00FF.
\<close>

subsection \<open>Exceptions\<close>

text \<open>
  Every exception the module can raise is a value. \<open>PyException msg\<close> is the plain
  \<^verbatim>\<open>Exception(msg)\<close> that the module raises itself; the others are raised by the
  interpreter (indexing, an unassigned local variable, \<^verbatim>\<open>int()\<close>, \<^verbatim>\<open>decode()\<close>).
\<close>

datatype error =
    IndexError
  | UnboundLocalError
  | ValueError
  | UnicodeDecodeError
  | PyException string

subsection \<open>Data model\<close>

datatype Frame = Frame (frame: int) (cell: int)

datatype Layer = Layer (name: string) (frames: "Frame list")

text \<open>
  A \<^verbatim>\<open>pathlib.Path\<close> is kept as the two things the module reads from it: its string
  (what \<^verbatim>\<open>os.path.basename\<close> receives) and its final component \<^verbatim>\<open>path.name\<close>.
\<close>

datatype Path = Path (path_str: string) (path_name: string)

record Timesheet =
  path :: Path
  sheet_name :: string
  frame_count :: int
  layers :: "Layer list"

subsection \<open>List operations of the interpreter\<close>

text \<open>
  \<^verbatim>\<open>xs[i]\<close> and \<^verbatim>\<open>xs.pop(i)\<close>: a negative index counts from the end, an index
  outside the list raises \<^verbatim>\<open>IndexError\<close>.
\<close>

definition py_index :: "'a list \<Rightarrow> int \<Rightarrow> nat option" where
  "py_index xs i =
     (if 0 \<le> i \<and> i < int (length xs) then Some (nat i)
      else if i < 0 \<and> - int (length xs) \<le> i then Some (nat (int (length xs) + i))
      else None)"

definition getitem :: "'a list \<Rightarrow> int \<Rightarrow> error + 'a" where
  "getitem xs i = (case py_index xs i of None \<Rightarrow> Inl IndexError | Some k \<Rightarrow> Inr (xs ! k))"

definition pop :: "'a list \<Rightarrow> int \<Rightarrow> error + 'a list" where
  "pop xs i =
     (case py_index xs i of None \<Rightarrow> Inl IndexError | Some k \<Rightarrow> Inr (take k xs @ drop (Suc k) xs))"

subsection \<open>\<^verbatim>\<open>Timesheet.__init__\<close>: normalization of every layer\<close>

text \<open>
  The loop \<^verbatim>\<open>for i in range(len(frames) - 1, 0, -1)\<close> fixes its range before the first
  iteration and walks \<open>i\<close> down to 1. \<open>dedup_loop k\<close> runs the iterations \<open>i = k, \<dots>, 1\<close>
  on the current list: it compares \<^verbatim>\<open>frames[i].cell\<close> with \<^verbatim>\<open>frames[i - 1].cell\<close>
  and pops index \<open>i\<close> when they are equal.
\<close>

fun dedup_loop :: "nat \<Rightarrow> Frame list \<Rightarrow> error + Frame list" where
  "dedup_loop 0 fs = Inr fs"
| "dedup_loop (Suc k) fs =
     (case getitem fs (int (Suc k)) of
        Inl e \<Rightarrow> Inl e
      | Inr a \<Rightarrow>
          (case getitem fs (int (Suc k) - 1) of
             Inl e \<Rightarrow> Inl e
           | Inr b \<Rightarrow>
               if cell a = cell b
               then (case pop fs (int (Suc k)) of
                       Inl e \<Rightarrow> Inl e
                     | Inr fs' \<Rightarrow> dedup_loop k fs')
               else dedup_loop k fs))"

text \<open>
  The body of \<^verbatim>\<open>for layer in layers\<close> on one layer's list: \<^verbatim>\<open>frames[0]\<close> is read first
  (and raises on an empty list), \<^verbatim>\<open>Frame(0, 0)\<close> is inserted in front when the first
  frame number is not 0, then the backward loop runs.
\<close>

definition normalize :: "Frame list \<Rightarrow> error + Frame list" where
  "normalize fs =
     (case getitem fs 0 of
        Inl e \<Rightarrow> Inl e
      | Inr first \<Rightarrow>
          (let fs1 = (if frame first \<noteq> 0 then Frame 0 0 # fs else fs)
           in dedup_loop (length fs1 - 1) fs1))"

fun normalize_layers :: "Layer list \<Rightarrow> error + Layer list" where
  "normalize_layers [] = Inr []"
| "normalize_layers (l # ls) =
     (case normalize (frames l) of
        Inl e \<Rightarrow> Inl e
      | Inr fs \<Rightarrow>
          (case normalize_layers ls of
             Inl e \<Rightarrow> Inl e
           | Inr ls' \<Rightarrow> Inr (Layer (name l) fs # ls')))"

definition Timesheet_init :: "Path \<Rightarrow> string \<Rightarrow> int \<Rightarrow> Layer list \<Rightarrow> error + Timesheet" where
  "Timesheet_init p n fc ls =
     (case normalize_layers ls of
        Inl e \<Rightarrow> Inl e
      | Inr ls' \<Rightarrow> Inr \<lparr>path = p, sheet_name = n, frame_count = fc, layers = ls'\<rparr>)"

text \<open>
  The run-length compression that the backward loop computes, written forwards: an
  entry stays when its cell differs from the cell of the entry before it.
\<close>

fun rle :: "int \<Rightarrow> Frame list \<Rightarrow> Frame list" where
  "rle p [] = []"
| "rle p (x # xs) = (if cell x = p then rle p xs else x # rle (cell x) xs)"

fun compress :: "Frame list \<Rightarrow> Frame list" where
  "compress [] = []"
| "compress (x # xs) = x # rle (cell x) xs"

subsection \<open>Built-in functions on text\<close>

text \<open>
  \<^verbatim>\<open>int(s)\<close> on a string, base 10: whitespace around the number is skipped, one sign
  may precede the digits, and single underscores may stand between digits; anything
  else raises \<^verbatim>\<open>ValueError\<close>. Up to U+00FF the whitespace skipped is U+0009 to U+000D,
  U+0020, U+0085 and U+00A0, and the decimal digits are \<open>0\<close> to \<open>9\<close>. A number written
  with more digits than the interpreter's limit \<^verbatim>\<open>sys.get_int_max_str_digits()\<close>, 4300
  unless it is reconfigured, raises \<^verbatim>\<open>ValueError\<close> as well; the limit counts the digits,
  leading zeros included, and neither sign, whitespace nor underscores.
\<close>

definition int_max_str_digits :: nat where
  "int_max_str_digits = 4300"

definition is_digit :: "char \<Rightarrow> bool" where
  "is_digit c = (48 \<le> (of_char c :: nat) \<and> (of_char c :: nat) \<le> 57)"

definition digit_val :: "char \<Rightarrow> int" where
  "digit_val c = int (of_char c) - 48"

definition int_space :: "char \<Rightarrow> bool" where
  "int_space c = ((of_char c :: nat) \<in> set [9, 10, 11, 12, 13, 32, 133, 160])"

fun int_digits :: "string \<Rightarrow> int \<Rightarrow> int option" where
  "int_digits [] acc = Some acc"
| "int_digits (c # cs) acc =
     (if is_digit c then int_digits cs (10 * acc + digit_val c)
      else if c = CHR ''_'' then
        (case cs of
           [] \<Rightarrow> None
         | d # ds \<Rightarrow> if is_digit d then int_digits ds (10 * acc + digit_val d) else None)
      else None)"

definition py_int :: "string \<Rightarrow> error + int" where
  "py_int s =
     (let t = rev (dropWhile int_space (rev (dropWhile int_space s)));
          negative = (t \<noteq> [] \<and> hd t = CHR ''-'');
          body = (if t \<noteq> [] \<and> (hd t = CHR ''-'' \<or> hd t = CHR ''+'') then tl t else t)
      in case body of
           [] \<Rightarrow> Inl ValueError
         | c # cs \<Rightarrow>
             if is_digit c
             then (if int_max_str_digits < length (filter is_digit body) then Inl ValueError
                   else (case int_digits cs (digit_val c) of
                           None \<Rightarrow> Inl ValueError
                         | Some n \<Rightarrow> Inr (if negative then - n else n)))
             else Inl ValueError)"

text \<open>
  \<^verbatim>\<open>re.compile(r"\d+$").search(value)\<close>: the start positions are tried from the left;
  at a position the greedy \<^verbatim>\<open>\d+\<close> takes the whole run of digits there, and \<^verbatim>\<open>$\<close>
  accepts the end of the string or the place just before a newline that ends the
  string. The result is the matched text (\<^verbatim>\<open>match.group()\<close>), or \<open>None\<close>.
\<close>

fun re_num_search :: "string \<Rightarrow> string option" where
  "re_num_search [] = None"
| "re_num_search (c # cs) =
     (let run = takeWhile is_digit (c # cs);
          rest = dropWhile is_digit (c # cs)
      in if run \<noteq> [] \<and> (rest = [] \<or> rest = [CHR 0x0A]) then Some run
         else re_num_search cs)"

subsection \<open>\<^verbatim>\<open>TDTS\<close> and \<^verbatim>\<open>XDTS\<close>: the JSON readers\<close>

text \<open>
  The parsed JSON table, with the keys the readers use. A frame entry is kept as its
  \<^verbatim>\<open>frame["frame"]\<close> and its \<^verbatim>\<open>frame["data"][0]["values"][0]\<close>, a string.
\<close>

datatype FrameEntry = FrameEntry (entry_frame: int) (entry_value: string)

datatype Track = Track (trackNo: int) (track_frames: "FrameEntry list")

datatype Field = Field (fieldId: int) (tracks: "Track list")

datatype Header = Header (header_fieldId: int) (names: "string list")

datatype TimeTable =
  TimeTable (table_name: string) (duration: int) (fields: "Field list")
    (timeTableHeaders: "Header list")

text \<open>
  A reader returns its result together with the exceptions it passed to
  \<^verbatim>\<open>traceback.print_exc()\<close>, in the order printed.
\<close>

fun TDTS_frames :: "FrameEntry list \<Rightarrow> Frame list \<Rightarrow> Frame list \<times> error list" where
  "TDTS_frames [] fs = (fs, [])"
| "TDTS_frames (fr # rest) fs =
     (if entry_value fr = ''SYMBOL_NULL_CELL''
      then TDTS_frames rest (fs @ [Frame (entry_frame fr) 0])
      else (case py_int (entry_value fr) of
              Inl e \<Rightarrow> (case TDTS_frames rest fs of (fs', printed) \<Rightarrow> (fs', e # printed))
            | Inr c \<Rightarrow> TDTS_frames rest (fs @ [Frame (entry_frame fr) c])))"

fun TDTS_tracks :: "string list \<Rightarrow> Track list \<Rightarrow> Layer list \<Rightarrow> (error + Layer list) \<times> error list" where
  "TDTS_tracks ns [] ls = (Inr ls, [])"
| "TDTS_tracks ns (tr # rest) ls =
     (case getitem ns (trackNo tr) of
        Inl e \<Rightarrow> (Inl e, [])
      | Inr nm \<Rightarrow>
          (case TDTS_frames (track_frames tr) [] of
             (fs, printed) \<Rightarrow>
               (case TDTS_tracks ns rest (ls @ [Layer nm fs]) of
                  (r, printed') \<Rightarrow> (r, printed @ printed'))))"

definition TDTS_read :: "TimeTable \<Rightarrow> (error + Layer list \<times> int) \<times> error list" where
  "TDTS_read tt =
     (case (find (\<lambda>f. fieldId f = 4) (fields tt),
            find (\<lambda>h. header_fieldId h = 4) (timeTableHeaders tt)) of
        (Some f, Some h) \<Rightarrow>
          (case TDTS_tracks (names h) (tracks f) [] of
             (Inl e, printed) \<Rightarrow> (Inl e, printed)
           | (Inr ls, printed) \<Rightarrow> (Inr (ls, duration tt), printed))
      | _ \<Rightarrow> (Inr ([], duration tt), []))"

definition TDTS :: "Path \<Rightarrow> string \<Rightarrow> TimeTable \<Rightarrow> (error + Timesheet) \<times> error list" where
  "TDTS p timeSheet_name tt =
     (case TDTS_read tt of
        (Inl e, printed) \<Rightarrow> (Inl e, printed)
      | (Inr (ls, fc), printed) \<Rightarrow>
          (Timesheet_init p (path_name p @ ''->'' @ timeSheet_name @ ''->'' @ table_name tt) fc ls,
           printed))"

text \<open>
  In \<^verbatim>\<open>XDTS.__read\<close> the local variable \<^verbatim>\<open>cell\<close> lives for the whole call: it is
  unassigned (\<open>None\<close>) until the first assignment and keeps its value from one frame
  entry to the next and from one track to the next. \<open>XDTS_frame\<close> is one pass through
  the body of \<^verbatim>\<open>for frame in track["frames"]\<close>.
\<close>

definition XDTS_frame ::
  "FrameEntry \<Rightarrow> int option \<times> Frame list \<Rightarrow> (error + int option \<times> Frame list) \<times> error list" where
  "XDTS_frame fr vars =
     (case vars of (cell_var, fs) \<Rightarrow>
        if entry_value fr = ''SYMBOL_NULL_CELL''
        then (Inr (Some 0, fs @ [Frame (entry_frame fr) 0]), [])
        else if entry_value fr \<in> set [''SYMBOL_TICK_1'', ''SYMBOL_TICK_2'', ''SYMBOL_HYPHEN'']
        then (Inr (cell_var, fs), [])
        else (case re_num_search (entry_value fr) of
                None \<Rightarrow>
                  (case cell_var of
                     None \<Rightarrow> (Inl UnboundLocalError, [PyException (''NotNumberError:'' @ entry_value fr)])
                   | Some c \<Rightarrow>
                       (Inr (Some c, fs @ [Frame (entry_frame fr) c]),
                        [PyException (''NotNumberError:'' @ entry_value fr)]))
              | Some m \<Rightarrow>
                  (case py_int m of
                     Inl e \<Rightarrow> (Inl e, [])
                   | Inr c \<Rightarrow> (Inr (Some c, fs @ [Frame (entry_frame fr) c]), []))))"

fun XDTS_frames ::
  "FrameEntry list \<Rightarrow> int option \<times> Frame list \<Rightarrow> (error + int option \<times> Frame list) \<times> error list" where
  "XDTS_frames [] vars = (Inr vars, [])"
| "XDTS_frames (fr # rest) vars =
     (case XDTS_frame fr vars of
        (Inl e, printed) \<Rightarrow> (Inl e, printed)
      | (Inr vars', printed) \<Rightarrow>
          (case XDTS_frames rest vars' of (r, printed') \<Rightarrow> (r, printed @ printed')))"

fun XDTS_tracks ::
  "string list \<Rightarrow> Track list \<Rightarrow> int option \<times> Layer list \<Rightarrow> (error + int option \<times> Layer list) \<times> error list" where
  "XDTS_tracks ns [] vars = (Inr vars, [])"
| "XDTS_tracks ns (tr # rest) vars =
     (case vars of (cell_var, ls) \<Rightarrow>
        (case getitem ns (trackNo tr) of
           Inl e \<Rightarrow> (Inl e, [])
         | Inr nm \<Rightarrow>
             (case XDTS_frames (track_frames tr) (cell_var, []) of
                (Inl e, printed) \<Rightarrow> (Inl e, printed)
              | (Inr (cell_var', fs), printed) \<Rightarrow>
                  (case XDTS_tracks ns rest (cell_var', ls @ [Layer nm fs]) of
                     (r, printed') \<Rightarrow> (r, printed @ printed')))))"

definition XDTS_read :: "TimeTable \<Rightarrow> (error + Layer list \<times> int) \<times> error list" where
  "XDTS_read tt =
     (case getitem (fields tt) 0 of
        Inl e \<Rightarrow> (Inl e, [])
      | Inr field \<Rightarrow>
          (case find (\<lambda>h. header_fieldId h = fieldId field) (timeTableHeaders tt) of
             None \<Rightarrow> (Inr ([], duration tt), [])
           | Some h \<Rightarrow>
               (case XDTS_tracks (names h) (tracks field) (None, []) of
                  (Inl e, printed) \<Rightarrow> (Inl e, printed)
                | (Inr (cell_var, ls), printed) \<Rightarrow> (Inr (ls, duration tt), printed))))"

definition XDTS :: "Path \<Rightarrow> TimeTable \<Rightarrow> (error + Timesheet) \<times> error list" where
  "XDTS p tt =
     (case XDTS_read tt of
        (Inl e, printed) \<Rightarrow> (Inl e, printed)
      | (Inr (ls, fc), printed) \<Rightarrow>
          (Timesheet_init p (path_name p @ ''->'' @ table_name tt) fc ls, printed))"

text \<open>
  The \<^verbatim>\<open>.xdts\<close> branch of \<^verbatim>\<open>load\<close> after the JSON document is parsed:
  \<^verbatim>\<open>[XDTS(file_path, timeTable) for timeTable in d["timeTables"]]\<close>. The first
  constructor that raises ends the comprehension and the call.
\<close>

fun load_xdts :: "Path \<Rightarrow> TimeTable list \<Rightarrow> (error + Timesheet list) \<times> error list" where
  "load_xdts p [] = (Inr [], [])"
| "load_xdts p (tt # tts) =
     (case XDTS p tt of
        (Inl e, printed) \<Rightarrow> (Inl e, printed)
      | (Inr ts, printed) \<Rightarrow>
          (case load_xdts p tts of
             (Inl e, printed') \<Rightarrow> (Inl e, printed @ printed')
           | (Inr tss, printed') \<Rightarrow> (Inr (ts # tss), printed @ printed')))"

subsection \<open>\<^verbatim>\<open>STS\<close>: the binary reader\<close>

text \<open>
  The open file is the list of bytes not yet read. \<^verbatim>\<open>f.read(n)\<close> returns the next
  \<open>n\<close> bytes, or fewer when the file ends first, and never raises. \<^verbatim>\<open>f.int(n)\<close> is
  \<^verbatim>\<open>int.from_bytes(f.read(n), byteorder='little', signed=False)\<close>.
\<close>

type_synonym byte = "8 word"

definition f_read :: "nat \<Rightarrow> byte list \<Rightarrow> byte list \<times> byte list" where
  "f_read n f = (take n f, drop n f)"

fun from_bytes_little :: "byte list \<Rightarrow> int" where
  "from_bytes_little [] = 0"
| "from_bytes_little (b # bs) = uint b + 256 * from_bytes_little bs"

definition f_int :: "nat \<Rightarrow> byte list \<Rightarrow> int \<times> byte list" where
  "f_int n f = (case f_read n f of (bs, f') \<Rightarrow> (from_bytes_little bs, f'))"

text \<open>
  \<^verbatim>\<open>bytes.decode()\<close>, the strict UTF-8 decoder, to a list of code points: shortest
  encodings only, no surrogates, nothing above U+10FFFF.
\<close>

definition continuation :: "byte \<Rightarrow> bool" where
  "continuation b = (128 \<le> unat b \<and> unat b < 192)"

definition trail :: "byte \<Rightarrow> nat" where
  "trail b = unat b - 128"

text \<open>The first code point of a byte string and the bytes after it, if well-formed.\<close>

definition utf8_first :: "byte list \<Rightarrow> (nat \<times> byte list) option" where
  "utf8_first bs =
     (case bs of
        [] \<Rightarrow> None
      | b # r \<Rightarrow>
          if unat b < 128 then Some (unat b, r)
          else if 194 \<le> unat b \<and> unat b < 224 then
            (case r of
               b1 # r1 \<Rightarrow>
                 if continuation b1 then Some ((unat b - 192) * 64 + trail b1, r1) else None
             | _ \<Rightarrow> None)
          else if 224 \<le> unat b \<and> unat b < 240 then
            (case r of
               b1 # b2 # r2 \<Rightarrow>
                 if continuation b1 \<and> continuation b2
                    \<and> (unat b = 224 \<longrightarrow> 160 \<le> unat b1) \<and> (unat b = 237 \<longrightarrow> unat b1 < 160)
                 then Some ((unat b - 224) * 4096 + trail b1 * 64 + trail b2, r2)
                 else None
             | _ \<Rightarrow> None)
          else if 240 \<le> unat b \<and> unat b < 245 then
            (case r of
               b1 # b2 # b3 # r3 \<Rightarrow>
                 if continuation b1 \<and> continuation b2 \<and> continuation b3
                    \<and> (unat b = 240 \<longrightarrow> 144 \<le> unat b1) \<and> (unat b = 244 \<longrightarrow> unat b1 < 144)
                 then Some ((unat b - 240) * 262144 + trail b1 * 4096 + trail b2 * 64 + trail b3, r3)
                 else None
             | _ \<Rightarrow> None)
          else None)"

function utf8_decode :: "byte list \<Rightarrow> error + nat list" where
  "utf8_decode [] = Inr []"
| "utf8_decode (b # bs) =
     (case utf8_first (b # bs) of
        None \<Rightarrow> Inl UnicodeDecodeError
      | Some (c, rest) \<Rightarrow>
          (case utf8_decode rest of Inl e \<Rightarrow> Inl e | Inr cs \<Rightarrow> Inr (c # cs)))"
  by pat_completeness auto
termination
  by (relation "measure length") (auto simp: utf8_first_def split: list.splits if_splits)

text \<open>\<^verbatim>\<open>os.path.basename\<close>: what follows the last \<open>/\<close>.\<close>

definition basename :: "string \<Rightarrow> string" where
  "basename p = rev (takeWhile (\<lambda>c. c \<noteq> CHR ''/'') (rev p))"

text \<open>
  The grid of one layer, \<^verbatim>\<open>for j in range(frame_count)\<close>: \<open>read_cells n j fs f\<close> runs the
  \<open>n\<close> iterations that start at frame \<open>j\<close>, with \<open>fs\<close> the list built so far.
\<close>

fun read_cells :: "nat \<Rightarrow> int \<Rightarrow> Frame list \<Rightarrow> byte list \<Rightarrow> Frame list \<times> byte list" where
  "read_cells 0 j fs f = (fs, f)"
| "read_cells (Suc n) j fs f =
     (case f_int 2 f of
        (c, f') \<Rightarrow>
          read_cells n (j + 1)
            (if length fs = 0 \<or> cell (last fs) \<noteq> c then fs @ [Frame j c] else fs) f')"

fun read_grids :: "nat \<Rightarrow> nat \<Rightarrow> Frame list list \<Rightarrow> byte list \<Rightarrow> Frame list list \<times> byte list" where
  "read_grids 0 fc frames_list f = (frames_list, f)"
| "read_grids (Suc n) fc frames_list f =
     (case read_cells fc 0 [] f of
        (fs, f') \<Rightarrow> read_grids n fc (frames_list @ [fs]) f')"

text \<open>
  The names, \<^verbatim>\<open>for i in range(layer_count)\<close>. The Shift-JIS decoder of the interpreter
  is the parameter \<open>sjis\<close>; it may raise.
\<close>

fun read_names ::
  "(byte list \<Rightarrow> error + string) \<Rightarrow> nat \<Rightarrow> int \<Rightarrow> Frame list list \<Rightarrow> Layer list \<Rightarrow> byte list
     \<Rightarrow> error + Layer list" where
  "read_names sjis 0 i frames_list ls f = Inr ls"
| "read_names sjis (Suc n) i frames_list ls f =
     (case f_int 1 f of
        (name_length, f1) \<Rightarrow>
          (case f_read (nat name_length) f1 of
             (name_bytes, f2) \<Rightarrow>
               (case sjis name_bytes of
                  Inl e \<Rightarrow> Inl e
                | Inr nm \<Rightarrow>
                    (case getitem frames_list i of
                       Inl e \<Rightarrow> Inl e
                     | Inr fs \<Rightarrow> read_names sjis n (i + 1) frames_list (ls @ [Layer nm fs]) f2))))"

definition STS :: "(byte list \<Rightarrow> error + string) \<Rightarrow> Path \<Rightarrow> byte list \<Rightarrow> error + Timesheet" where
  "STS sjis p f0 =
     (case f_read 1 f0 of
        (reserved, f1) \<Rightarrow>
          (case f_read 17 f1 of
             (magic, f2) \<Rightarrow>
               (case utf8_decode magic of
                  Inl e \<Rightarrow> Inl e
                | Inr text \<Rightarrow>
                    if text \<noteq> map of_char ''ShiraheiTimeSheet''
                    then Inl (PyException ''NotSTSFileFormatError'')
                    else
                      (case f_int 1 f2 of
                         (layer_count, f3) \<Rightarrow>
                           (case f_int 2 f3 of
                              (fc, f4) \<Rightarrow>
                                (case f_read 2 f4 of
                                   (reserved2, f5) \<Rightarrow>
                                     (case read_grids (nat layer_count) (nat fc) [] f5 of
                                        (frames_list, f6) \<Rightarrow>
                                          (case read_names sjis (nat layer_count) 0 frames_list [] f6 of
                                             Inl e \<Rightarrow> Inl e
                                           | Inr ls \<Rightarrow>
                                               Timesheet_init p (basename (path_str p)) fc ls))))))))"

subsection \<open>Constants used to state results about the binary reader\<close>

text \<open>The 17 bytes of the magic string.\<close>

definition magic_bytes :: "byte list" where
  "magic_bytes = map of_char ''ShiraheiTimeSheet''"

text \<open>
  A decoder to run the reader on concrete files: it decodes bytes below 128 as the
  characters of the same number, as Shift-JIS does for letters and digits, and raises
  on any other byte.
\<close>

definition ascii_codec :: "byte list \<Rightarrow> error + string" where
  "ascii_codec bs =
     (if list_all (\<lambda>b. unat b < 128) bs then Inr (map (\<lambda>b. char_of (unat b)) bs)
      else Inl UnicodeDecodeError)"

subsection \<open>Notions used to state results about the JSON readers\<close>

text \<open>
  The trailing run of decimal digits of a value (its longest suffix of digits), the
  decimal number a string of digits denotes, and a value without the one newline that
  may end it.
\<close>

definition trailing_digit_run :: "string \<Rightarrow> string" where
  "trailing_digit_run v = rev (takeWhile is_digit (rev v))"


definition strip_final_newline :: "string \<Rightarrow> string" where
  "strip_final_newline v = (if v \<noteq> [] \<and> last v = CHR 0x0A then butlast v else v)"

text \<open>The values that the XDTS reader skips.\<close>

definition tick :: "FrameEntry \<Rightarrow> bool" where
  "tick fr = (entry_value fr \<in> set [''SYMBOL_TICK_1'', ''SYMBOL_TICK_2'', ''SYMBOL_HYPHEN''])"

subsection \<open>The invariant of a layer\<close>

text \<open>No two neighbours in a list of frames have the same cell.\<close>

fun no_equal_neighbours :: "Frame list \<Rightarrow> bool" where
  "no_equal_neighbours [] = True"
| "no_equal_neighbours [x] = True"
| "no_equal_neighbours (x # y # zs) = (cell x \<noteq> cell y \<and> no_equal_neighbours (y # zs))"

section \<open>Normalization\<close>

subsection \<open>The backward loop computes the compression\<close>

lemma getitem_nat: "k < length xs \<Longrightarrow> getitem xs (int k) = Inr (xs ! k)"
  by (simp add: getitem_def py_index_def)

lemma pop_nat: "k < length xs \<Longrightarrow> pop xs (int k) = Inr (take k xs @ drop (Suc k) xs)"
  by (simp add: pop_def py_index_def)

lemma getitem_Nil: "getitem [] i = Inl IndexError"
  by (simp add: getitem_def py_index_def)

lemma rle_snoc:
  "rle p (ys @ [a]) = rle p ys @ (if cell a = (if ys = [] then p else cell (last ys)) then [] else [a])"
  by (induction ys arbitrary: p) auto

lemma compress_snoc2:
  "compress (ys @ [b, a]) = compress (ys @ [b]) @ (if cell a = cell b then [] else [a])"
proof (cases ys)
  case Nil
  then show ?thesis by simp
next
  case (Cons y ys')
  have "rle (cell y) ((ys' @ [b]) @ [a]) = rle (cell y) (ys' @ [b]) @ (if cell a = cell b then [] else [a])"
    by (subst rle_snoc) simp
  with Cons show ?thesis by simp
qed

lemma dedup_loop_append:
  "length xs = Suc k \<Longrightarrow> dedup_loop k (xs @ t) = Inr (compress xs @ t)"
proof (induction k arbitrary: xs t)
  case 0
  then obtain x where "xs = [x]" by (cases xs) auto
  then show ?case by simp
next
  case (Suc k)
  then obtain ys a where xs: "xs = ys @ [a]" and ys: "length ys = Suc k"
    by (cases xs rule: rev_cases) auto
  then obtain zs b where ysd: "ys = zs @ [b]" and zs: "length zs = k"
    by (cases ys rule: rev_cases) auto
  have len: "Suc k < length (xs @ t)" "k < length (xs @ t)" using xs ys by auto
  have ga: "getitem (xs @ t) (int (Suc k)) = Inr a"
    using getitem_nat[OF len(1)] xs ys by (simp add: nth_append)
  have gb: "getitem (xs @ t) (int (Suc k) - 1) = Inr b"
    using getitem_nat[OF len(2)] xs ysd zs by (simp add: nth_append)
  have pp: "pop (xs @ t) (int (Suc k)) = Inr (ys @ t)"
    using pop_nat[OF len(1)] xs ys by simp
  show ?case
  proof (cases "cell a = cell b")
    case True
    have "dedup_loop (Suc k) (xs @ t) = dedup_loop k (ys @ t)"
      using ga gb pp True by simp
    also have "\<dots> = Inr (compress ys @ t)" using Suc.IH[OF ys] .
    also have "compress ys = compress xs" using True xs ysd compress_snoc2[of zs b a] by simp
    finally show ?thesis .
  next
    case False
    have "dedup_loop (Suc k) (xs @ t) = dedup_loop k (ys @ ([a] @ t))"
      using ga gb False xs by simp
    also have "\<dots> = Inr (compress ys @ ([a] @ t))" using Suc.IH[OF ys] .
    also have "compress ys @ ([a] @ t) = compress xs @ t"
      using False xs ysd compress_snoc2[of zs b a] by simp
    finally show ?thesis .
  qed
qed

lemma dedup_loop_compress: "fs \<noteq> [] \<Longrightarrow> dedup_loop (length fs - 1) fs = Inr (compress fs)"
  using dedup_loop_append[of fs "length fs - 1" "[]"] by (cases fs) auto

lemma normalize_Nil: "normalize [] = Inl IndexError"
  by (simp add: normalize_def getitem_Nil)

lemma normalize_Cons:
  "normalize (x # xs) = Inr (compress (if frame x \<noteq> 0 then Frame 0 0 # x # xs else x # xs))"
proof -
  have "getitem (x # xs) 0 = Inr x" using getitem_nat[of 0 "x # xs"] by simp
  then show ?thesis
    using dedup_loop_compress[of "Frame 0 0 # x # xs"] dedup_loop_compress[of "x # xs"]
    by (simp add: normalize_def Let_def)
qed

lemma rle_head: "rle p xs = y # ys \<Longrightarrow> cell y \<noteq> p"
  by (induction xs arbitrary: p) (auto split: if_splits)

lemma distinct_adj_rle: "distinct_adj (map cell (rle p xs))"
proof (induction xs arbitrary: p)
  case Nil show ?case by simp
next
  case (Cons x xs)
  show ?case
  proof (cases "cell x = p")
    case True then show ?thesis using Cons.IH by simp
  next
    case False
    have "distinct_adj (cell x # map cell (rle (cell x) xs))"
      using Cons.IH[of "cell x"] rle_head[of "cell x" xs]
      by (cases "rle (cell x) xs") (auto simp: distinct_adj_Cons)
    with False show ?thesis by simp
  qed
qed

lemma distinct_adj_compress: "distinct_adj (map cell (compress xs))"
proof (cases xs)
  case Nil then show ?thesis by simp
next
  case (Cons x xs')
  then show ?thesis
    using distinct_adj_rle[of "cell x" xs'] rle_head[of "cell x" xs']
    by (cases "rle (cell x) xs'") (auto simp: distinct_adj_Cons)
qed

lemma rle_idem: "rle p (rle p xs) = rle p xs"
  by (induction xs arbitrary: p) auto

lemma compress_idem: "compress (compress xs) = compress xs"
  by (cases xs) (auto simp: rle_idem)

subsection \<open>What a successful normalization returns\<close>

lemma normalize_result:
  assumes "normalize fs = Inr gs"
  shows "\<exists>ys. gs = compress ys \<and> ys \<noteq> [] \<and> frame (hd ys) = 0"
proof (cases fs)
  case Nil
  with assms show ?thesis by (simp add: normalize_Nil)
next
  case (Cons x xs)
  define ys where "ys = (if frame x \<noteq> 0 then Frame 0 0 # x # xs else x # xs)"
  have "gs = compress ys" using assms Cons unfolding ys_def by (simp only: normalize_Cons sum.inject)
  moreover have "ys \<noteq> []" "frame (hd ys) = 0" by (simp_all add: ys_def)
  ultimately show ?thesis by blast
qed

lemma normalize_frame_zero:
  "normalize fs = Inr gs \<Longrightarrow> gs \<noteq> [] \<and> frame (hd gs) = 0"
proof -
  assume "normalize fs = Inr gs"
  then obtain ys where "gs = compress ys" "ys \<noteq> []" "frame (hd ys) = 0"
    using normalize_result by blast
  then show ?thesis by (cases ys) auto
qed

lemma normalize_fixed: "normalize fs = Inr gs \<Longrightarrow> normalize gs = Inr gs"
proof -
  assume "normalize fs = Inr gs"
  then obtain ys where ys: "gs = compress ys" "ys \<noteq> []" "frame (hd ys) = 0"
    using normalize_result by blast
  then obtain y ys' where c: "ys = y # ys'" by (cases ys) auto
  have "normalize (y # rle (cell y) ys') = Inr (compress (y # rle (cell y) ys'))"
    using ys(3) c by (simp add: normalize_Cons)
  then show ?thesis using ys(1) c by (simp add: rle_idem)
qed

lemma normalize_distinct_adj: "normalize fs = Inr gs \<Longrightarrow> distinct_adj (map cell gs)"
  using normalize_result distinct_adj_compress by blast

lemma normalize_layers_frames:
  "normalize_layers ls = Inr ls' \<Longrightarrow> l' \<in> set ls' \<Longrightarrow> \<exists>fs. normalize fs = Inr (frames l')"
proof (induction ls arbitrary: ls')
  case Nil
  then show ?case by simp
next
  case (Cons l ls)
  from Cons.prems(1) obtain fs rest where
    n: "normalize (frames l) = Inr fs" and r: "normalize_layers ls = Inr rest"
    and ls': "ls' = Layer (name l) fs # rest"
    by (auto split: sum.splits)
  show ?case
  proof (cases "l' = Layer (name l) fs")
    case True
    with n show ?thesis by auto
  next
    case False
    with Cons.prems(2) ls' have "l' \<in> set rest" by simp
    with Cons.IH[OF r] show ?thesis .
  qed
qed

lemma normalize_layers_fixed: "normalize_layers ls = Inr ls' \<Longrightarrow> normalize_layers ls' = Inr ls'"
proof (induction ls arbitrary: ls')
  case Nil
  then show ?case by simp
next
  case (Cons l ls)
  then show ?case by (auto split: sum.splits simp: normalize_fixed)
qed

lemma Timesheet_init_layers:
  "Timesheet_init p n fc ls = Inr ts \<Longrightarrow> normalize_layers ls = Inr (layers ts)"
  by (auto simp: Timesheet_init_def split: sum.splits)

section \<open>The binary reader\<close>

subsection \<open>The magic string\<close>

lemma utf8_first_ascii:
  "utf8_first bs = Some (c, rest) \<Longrightarrow> c < 128 \<Longrightarrow> \<exists>b. bs = b # rest \<and> unat b = c"
  unfolding utf8_first_def continuation_def trail_def
  by (auto split: list.splits if_splits)

lemma utf8_decode_error: "utf8_decode bs = Inl e \<Longrightarrow> e = UnicodeDecodeError"
proof (induction bs arbitrary: e rule: utf8_decode.induct)
  case 1
  then show ?case by simp
next
  case (2 b bs)
  show ?case
  proof (cases "utf8_first (b # bs)")
    case None
    with "2.prems" show ?thesis by simp
  next
    case (Some cr)
    obtain c rest where cr: "cr = (c, rest)" by (cases cr)
    with "2.prems" Some have "utf8_decode rest = Inl e" by (simp split: sum.splits)
    with "2.IH"[OF Some cr[symmetric]] show ?thesis by simp
  qed
qed

lemma utf8_decode_ascii:
  "utf8_decode bs = Inr cs \<Longrightarrow> \<forall>c\<in>set cs. c < 128 \<Longrightarrow> map unat bs = cs"
proof (induction bs arbitrary: cs rule: utf8_decode.induct)
  case 1
  then show ?case by simp
next
  case (2 b bs)
  show ?case
  proof (cases "utf8_first (b # bs)")
    case None
    with "2.prems" show ?thesis by simp
  next
    case (Some cr)
    obtain c rest where cr: "cr = (c, rest)" by (cases cr)
    with "2.prems"(1) Some obtain cs' where d: "utf8_decode rest = Inr cs'" and cs: "cs = c # cs'"
      by (auto split: sum.splits)
    have "c < 128" using "2.prems"(2) cs by simp
    with Some cr have b: "bs = rest" "unat b = c" using utf8_first_ascii[of "b # bs" c rest] by auto
    have "map unat rest = cs'" using "2.IH"[OF Some cr[symmetric] d] "2.prems"(2) cs by simp
    with b cs show ?thesis by simp
  qed
qed

lemma magic_only:
  assumes "utf8_decode bs = Inr (map of_char ''ShiraheiTimeSheet'')"
  shows "bs = magic_bytes"
proof -
  have "map unat bs = map of_char ''ShiraheiTimeSheet''"
    using utf8_decode_ascii[OF assms] by simp
  then have "map (word_of_nat :: nat \<Rightarrow> byte) (map unat bs) = map word_of_nat (map of_char ''ShiraheiTimeSheet'')"
    by simp
  then show ?thesis by (simp add: magic_bytes_def comp_def)
qed

lemma utf8_decode_magic: "utf8_decode magic_bytes = Inr (map of_char ''ShiraheiTimeSheet'')"
  by (simp add: magic_bytes_def utf8_first_def)

lemma length_magic_bytes: "length magic_bytes = 17"
  by (simp add: magic_bytes_def)

lemma STS_bad_magic:
  assumes "take 17 (drop 1 f) \<noteq> magic_bytes"
  shows "STS sjis p f =
           (case utf8_decode (take 17 (drop 1 f)) of
              Inl e \<Rightarrow> Inl UnicodeDecodeError
            | Inr t \<Rightarrow> Inl (PyException ''NotSTSFileFormatError''))"
proof (cases "utf8_decode (take 17 (drop 1 f))")
  case (Inl e)
  then have "e = UnicodeDecodeError" by (rule utf8_decode_error)
  with Inl show ?thesis by (simp add: STS_def f_read_def)
next
  case (Inr t)
  have "t \<noteq> map of_char ''ShiraheiTimeSheet''"
    using assms Inr magic_only by blast
  with Inr show ?thesis by (simp add: STS_def f_read_def)
qed

lemma STS_good_magic:
  "STS sjis p (r0 # magic_bytes @ f2) =
     (case f_int 1 f2 of
        (layer_count, f3) \<Rightarrow>
          (case f_int 2 f3 of
             (fc, f4) \<Rightarrow>
               (case f_read 2 f4 of
                  (reserved2, f5) \<Rightarrow>
                    (case read_grids (nat layer_count) (nat fc) [] f5 of
                       (frames_list, f6) \<Rightarrow>
                         (case read_names sjis (nat layer_count) 0 frames_list [] f6 of
                            Inl e \<Rightarrow> Inl e
                          | Inr ls \<Rightarrow> Timesheet_init p (basename (path_str p)) fc ls)))))"
proof -
  have "f_read 1 (r0 # magic_bytes @ f2) = ([r0], magic_bytes @ f2)"
    by (simp add: f_read_def)
  moreover have "f_read 17 (magic_bytes @ f2) = (magic_bytes, f2)"
    by (simp add: f_read_def length_magic_bytes)
  ultimately show ?thesis
    by (simp add: STS_def utf8_decode_magic)
qed

lemma STS_constructed:
  "STS sjis p f = Inr ts \<Longrightarrow> \<exists>n fc ls. Timesheet_init p n fc ls = Inr ts"
  unfolding STS_def
  by (auto split: prod.splits sum.splits if_splits)

lemma read_cells_numeral:
  "read_cells (numeral k) j fs f =
     (case f_int 2 f of
        (c, f') \<Rightarrow>
          read_cells (pred_numeral k) (j + 1)
            (if length fs = 0 \<or> cell (last fs) \<noteq> c then fs @ [Frame j c] else fs) f')"
  by (simp add: numeral_eq_Suc)

lemma read_grids_numeral:
  "read_grids (numeral k) fc fl f =
     (case read_cells fc 0 [] f of (fs, f') \<Rightarrow> read_grids (pred_numeral k) fc (fl @ [fs]) f')"
  by (simp add: numeral_eq_Suc)

subsection \<open>A well-formed file\<close>

text \<open>
  Claim C6. The file made of one reserved byte, the magic \<^verbatim>\<open>ShiraheiTimeSheet\<close>, the layer
  count 1, the frame count 4 in two little-endian bytes, two reserved bytes, the grid
  values 5, 5, 7, 7 in two little-endian bytes each, and one name record (a length byte and
  that many bytes, which the Shift-JIS decoder accepts) is read as one Timesheet with a
  single layer whose frames are \<open>[(0, 5), (2, 7)]\<close>. The reserved bytes and the name are
  arbitrary.
\<close>

theorem STS_round_trip:
  assumes "length name_bytes < 256" and "sjis name_bytes = Inr nm"
  shows "STS sjis p ([r0] @ magic_bytes @ [1, 4, 0, r1, r2, 5, 0, 5, 0, 7, 0, 7, 0]
                       @ [word_of_nat (length name_bytes)] @ name_bytes)
         = Inr \<lparr>path = p, sheet_name = basename (path_str p), frame_count = 4,
                 layers = [Layer nm [Frame 0 5, Frame 2 7]]\<rparr>"
proof -
  define rec where "rec = (word_of_nat (length name_bytes) :: byte) # name_bytes"
  define grid :: "byte list" where "grid = [5, 0, 5, 0, 7, 0, 7, 0]"
  have n: "uint (word_of_nat (length name_bytes) :: byte) = int (length name_bytes)"
    using assms(1) by (simp add: uint_nat unat_of_nat)
  have c1: "f_int (Suc 0) (1 # 4 # 0 # r1 # r2 # grid @ rec) = (1, 4 # 0 # r1 # r2 # grid @ rec)"
    by (simp add: f_int_def f_read_def)
  have c2: "f_int 2 (4 # 0 # r1 # r2 # grid @ rec) = (4, r1 # r2 # grid @ rec)"
    by (simp add: f_int_def f_read_def)
  have c3: "f_read 2 (r1 # r2 # grid @ rec) = ([r1, r2], grid @ rec)"
    by (simp add: f_read_def)
  have cells: "read_cells 4 0 [] (grid @ rec) = ([Frame 0 5, Frame 2 7], rec)"
    by (simp add: grid_def read_cells_numeral f_int_def f_read_def)
  have g: "read_grids (Suc 0) 4 [] (grid @ rec) = ([[Frame 0 5, Frame 2 7]], rec)"
    by (simp add: cells)
  have nm: "read_names sjis (Suc 0) 0 [[Frame 0 5, Frame 2 7]] [] rec
           = Inr [Layer nm [Frame 0 5, Frame 2 7]]"
    using assms(2) n by (simp add: rec_def f_int_def f_read_def getitem_def py_index_def)
  have t: "Timesheet_init p (basename (path_str p)) 4 [Layer nm [Frame 0 5, Frame 2 7]]
           = Inr \<lparr>path = p, sheet_name = basename (path_str p), frame_count = 4,
                 layers = [Layer nm [Frame 0 5, Frame 2 7]]\<rparr>"
    by (simp add: Timesheet_init_def normalize_Cons)
  have "STS sjis p (r0 # magic_bytes @ (1 # 4 # 0 # r1 # r2 # grid @ rec))
        = Inr \<lparr>path = p, sheet_name = basename (path_str p), frame_count = 4,
                 layers = [Layer nm [Frame 0 5, Frame 2 7]]\<rparr>"
    by (simp add: STS_good_magic c1 c2 c3 g nm t del: read_grids.simps read_names.simps)
  then show ?thesis by (simp add: grid_def rec_def)
qed

theorem STS_round_trip_witness:
  "length [0x41 :: byte] < 256 \<and> ascii_codec [0x41] = Inr ''A'' \<and>
   STS ascii_codec (Path ''cut/a.sts'' ''a.sts'')
     ([0] @ magic_bytes @ [1, 4, 0, 0, 0, 5, 0, 5, 0, 7, 0, 7, 0] @ [1] @ [0x41])
   = Inr \<lparr>path = Path ''cut/a.sts'' ''a.sts'', sheet_name = ''a.sts'', frame_count = 4,
           layers = [Layer ''A'' [Frame 0 5, Frame 2 7]]\<rparr>"
proof -
  have a: "ascii_codec [0x41] = Inr ''A''" by code_simp
  have b: "basename ''cut/a.sts'' = ''a.sts''" by code_simp
  show ?thesis
    using a b STS_round_trip[of "[0x41]" ascii_codec "''A''" "Path ''cut/a.sts'' ''a.sts''" 0 0 0]
    by simp
qed

subsection \<open>A wrong magic string\<close>

text \<open>
  Claim C7 says that a file whose 17 bytes after the reserved byte do not decode to
  \<^verbatim>\<open>ShiraheiTimeSheet\<close> fails with \<^verbatim>\<open>NotSTSFileFormatError\<close>. The reader decodes the bytes
  before it compares them, so 17 bytes that are not UTF-8 raise \<^verbatim>\<open>UnicodeDecodeError\<close>
  in \<^verbatim>\<open>decode()\<close> and the comparison is never reached: here for 17 bytes \<open>0xFF\<close>.
\<close>

theorem STS_bad_magic_counterexample:
  "utf8_decode (take 17 (drop 1 ([0] @ replicate 17 (0xFF :: byte)))) \<noteq> Inr (map of_char ''ShiraheiTimeSheet'') \<and>
   STS ascii_codec (Path ''a.sts'' ''a.sts'') ([0] @ replicate 17 0xFF) = Inl UnicodeDecodeError \<and>
   STS ascii_codec (Path ''a.sts'' ''a.sts'') ([0] @ replicate 17 0xFF)
     \<noteq> Inl (PyException ''NotSTSFileFormatError'')"
proof -
  have d: "utf8_decode (take 17 (drop 1 ([0] @ replicate 17 (0xFF :: byte)))) = Inl UnicodeDecodeError"
    by code_simp
  have "take 17 (drop 1 ([0] @ replicate 17 (0xFF :: byte))) \<noteq> magic_bytes"
    by code_simp
  from STS_bad_magic[OF this, of ascii_codec "Path ''a.sts'' ''a.sts''"] d show ?thesis by simp
qed

text \<open>
  Claim C7, amended. When the (up to) 17 bytes after the reserved byte are not the bytes of
  \<^verbatim>\<open>ShiraheiTimeSheet\<close>, the reader fails and returns no Timesheet: with
  \<^verbatim>\<open>Exception("NotSTSFileFormatError")\<close> when the bytes are well-formed UTF-8, with
  \<^verbatim>\<open>UnicodeDecodeError\<close> when they are not.
\<close>

theorem STS_bad_magic_fails:
  assumes "take 17 (drop 1 f) \<noteq> magic_bytes"
  shows "STS sjis p f =
           (case utf8_decode (take 17 (drop 1 f)) of
              Inl e \<Rightarrow> Inl UnicodeDecodeError
            | Inr t \<Rightarrow> Inl (PyException ''NotSTSFileFormatError''))"
  using assms by (rule STS_bad_magic)

theorem STS_bad_magic_fails_witness:
  "take 17 (drop 1 ([0] @ replicate 17 (0x41 :: byte))) \<noteq> magic_bytes \<and>
   STS ascii_codec (Path ''a.sts'' ''a.sts'') ([0] @ replicate 17 0x41)
     = Inl (PyException ''NotSTSFileFormatError'')"
proof -
  have h: "take 17 (drop 1 ([0] @ replicate 17 (0x41 :: byte))) \<noteq> magic_bytes"
    by code_simp
  have d: "utf8_decode (take 17 (drop 1 ([0] @ replicate 17 (0x41 :: byte)))) = Inr (replicate 17 65)"
    by code_simp
  show ?thesis
    using h STS_bad_magic_fails[OF h, of ascii_codec "Path ''a.sts'' ''a.sts''"] d by simp
qed

subsection \<open>A truncated file\<close>

text \<open>
  Claim C2 says that a file too short for the bytes the framing asks for fails. A read past
  the end of the file returns the bytes that are left and \<^verbatim>\<open>int.from_bytes\<close> of no bytes
  is 0, so a file cut after the magic is read to the end: the file below declares one layer
  of four frames, which with the name length asks for 32 bytes, stops after the second cell
  at 27 bytes, and is read as a Timesheet whose layer has the cells 5, 5, 0, 0 and the
  empty name.
\<close>

theorem STS_truncated_counterexample:
  "length ([0] @ magic_bytes @ [1, 4, 0, 0, 0, 5, 0, 5, 0 :: byte]) < 18 + 1 + 2 + 2 + 1 * 4 * 2 + 1 \<and>
   STS ascii_codec (Path ''a.sts'' ''a.sts'') ([0] @ magic_bytes @ [1, 4, 0, 0, 0, 5, 0, 5, 0])
     = Inr \<lparr>path = Path ''a.sts'' ''a.sts'', sheet_name = ''a.sts'', frame_count = 4,
             layers = [Layer [] [Frame 0 5, Frame 2 0]]\<rparr>"
  by code_simp

text \<open>
  Claim C2, amended. A file too short to hold the reserved byte and the 17 bytes of the
  magic (fewer than 18 bytes) fails, with \<^verbatim>\<open>Exception("NotSTSFileFormatError")\<close> or
  with \<^verbatim>\<open>UnicodeDecodeError\<close>, and no Timesheet is returned.
\<close>

theorem STS_short_header_fails:
  assumes "length f < 18"
  shows "STS sjis p f = Inl (PyException ''NotSTSFileFormatError'') \<or> STS sjis p f = Inl UnicodeDecodeError"
proof -
  have short: "length (take 17 (drop 1 f)) < 17" using assms by simp
  have "take 17 (drop 1 f) \<noteq> magic_bytes"
  proof
    assume "take 17 (drop 1 f) = magic_bytes"
    then have "length (take 17 (drop 1 f)) = 17" by (simp only: length_magic_bytes)
    with short show False by simp
  qed
  from STS_bad_magic[OF this, of sjis p] show ?thesis by (simp split: sum.splits)
qed

theorem STS_short_header_fails_witness:
  "length ([0] @ take 16 magic_bytes) < 18 \<and>
   STS ascii_codec (Path ''a.sts'' ''a.sts'') ([0] @ take 16 magic_bytes)
     = Inl (PyException ''NotSTSFileFormatError'')"
proof -
  have h: "length ([0] @ take 16 magic_bytes) < 18" by (simp add: magic_bytes_def)
  have "STS ascii_codec (Path ''a.sts'' ''a.sts'') ([0] @ take 16 magic_bytes) \<noteq> Inl UnicodeDecodeError"
    by code_simp
  with STS_short_header_fails[OF h, of ascii_codec "Path ''a.sts'' ''a.sts''"] h show ?thesis by blast
qed

section \<open>Layers without frames\<close>

text \<open>
  Claim C1 says that an empty frame sequence gets the entry \<open>(0, 0)\<close>. The constructor
  reads \<^verbatim>\<open>frames[0]\<close> before anything else, which raises \<^verbatim>\<open>IndexError\<close> on an empty list:
  the XDTS table with one track that has no frame entries builds no Timesheet.
\<close>

theorem empty_layer_raises:
  "normalize [] = Inl IndexError \<and>
   fst (XDTS (Path ''a.xdts'' ''a.xdts'')
         (TimeTable ''t'' 24 [Field 0 [Track 0 []]] [Header 0 [''A'']])) = Inl IndexError"
  by code_simp

section \<open>The JSON readers\<close>

subsection \<open>Digits: \<^verbatim>\<open>int()\<close> and the pattern \<^verbatim>\<open>\d+$\<close>\<close>


lemma digit_not_sign: "is_digit c \<Longrightarrow> c \<noteq> CHR ''-'' \<and> c \<noteq> CHR ''+'' \<and> c \<noteq> CHR 0x0A \<and> c \<noteq> CHR ''_''"
  by (auto simp: is_digit_def)







lemma trailing_digit_run_all: "list_all is_digit v \<Longrightarrow> trailing_digit_run v = v"
  by (simp add: trailing_digit_run_def list_all_iff takeWhile_eq_all_conv[THEN iffD2])

lemma trailing_digit_run_Cons:
  "\<not> list_all is_digit (c # s) \<Longrightarrow> trailing_digit_run (c # s) = trailing_digit_run s"
proof (cases "list_all is_digit s")
  case True
  assume "\<not> list_all is_digit (c # s)"
  with True have c: "\<not> is_digit c" by simp
  have "takeWhile is_digit (rev s @ [c]) = rev s @ takeWhile is_digit [c]"
    by (rule takeWhile_append2) (use True in \<open>auto simp: list_all_iff\<close>)
  with c True show ?thesis
    by (simp add: trailing_digit_run_def list_all_iff takeWhile_eq_all_conv[THEN iffD2])
next
  case False
  then obtain x where "x \<in> set (rev s)" "\<not> is_digit x" by (auto simp: list_all_iff)
  then show ?thesis
    by (simp add: trailing_digit_run_def takeWhile_append1)
qed

lemma strip_final_newline_Cons:
  "cs \<noteq> [] \<Longrightarrow> strip_final_newline (c # cs) = c # strip_final_newline cs"
  by (simp add: strip_final_newline_def)

lemma digits_no_newline: "list_all is_digit v \<Longrightarrow> strip_final_newline v = v"
proof (cases "v = []")
  case True
  then show ?thesis by (simp add: strip_final_newline_def)
next
  case False
  assume "list_all is_digit v"
  with False have "is_digit (last v)" by (simp add: list_all_iff)
  then have "last v \<noteq> CHR 0x0A" using digit_not_sign by blast
  then show ?thesis by (simp add: strip_final_newline_def)
qed

lemma re_num_search_eq:
  "re_num_search v =
     (if trailing_digit_run (strip_final_newline v) = [] then None
      else Some (trailing_digit_run (strip_final_newline v)))"
proof (induction v)
  case Nil
  show ?case by (simp add: strip_final_newline_def trailing_digit_run_def)
next
  case (Cons c cs)
  define run where "run = takeWhile is_digit (c # cs)"
  define rest where "rest = dropWhile is_digit (c # cs)"
  have v: "c # cs = run @ rest" by (simp add: run_def rest_def)
  have unfold: "re_num_search (c # cs) =
      (if run \<noteq> [] \<and> (rest = [] \<or> rest = [CHR 0x0A]) then Some run else re_num_search cs)"
    unfolding run_def rest_def by (simp only: re_num_search.simps Let_def)
  have run_digits: "list_all is_digit run"
    unfolding run_def list_all_iff by (meson set_takeWhileD)
  consider (all) "run \<noteq> []" "rest = []" | (nl) "run \<noteq> []" "rest = [CHR 0x0A]"
    | (other) "\<not> (run \<noteq> [] \<and> (rest = [] \<or> rest = [CHR 0x0A]))" by blast
  then show ?case
  proof cases
    case all
    then have d: "list_all is_digit (c # cs)" using v run_digits by simp
    have "re_num_search (c # cs) = Some run"
      using all by (simp only: unfold simp_thms if_True)
    moreover have "run = c # cs" using all v by simp
    ultimately have "re_num_search (c # cs) = Some (c # cs)" by simp
    then show ?thesis
      using digits_no_newline[OF d] trailing_digit_run_all[OF d] by simp
  next
    case nl
    have s: "strip_final_newline (c # cs) = run"
      using v nl by (simp add: strip_final_newline_def)
    have "re_num_search (c # cs) = Some run"
      using nl by (simp only: unfold simp_thms if_True)
    then show ?thesis
      using s trailing_digit_run_all[OF run_digits] nl(1) by simp
  next
    case other
    have step: "re_num_search (c # cs) = re_num_search cs"
      using other by (simp only: unfold if_False)
    have "trailing_digit_run (strip_final_newline (c # cs)) = trailing_digit_run (strip_final_newline cs)"
    proof (cases "cs = []")
      case True
      have "\<not> is_digit c"
      proof
        assume "is_digit c"
        with True have "run = [c]" "rest = []" by (simp_all add: run_def rest_def)
        with other show False by simp
      qed
      with True show ?thesis
        by (simp add: strip_final_newline_def trailing_digit_run_def)
    next
      case False
      have "\<not> list_all is_digit (c # strip_final_newline cs)"
      proof
        assume a: "list_all is_digit (c # strip_final_newline cs)"
        show False
        proof (cases "last cs = CHR 0x0A")
          case True
          with False have cs: "cs = butlast cs @ [CHR 0x0A]" by (metis append_butlast_last_id)
          from True False have sb: "strip_final_newline cs = butlast cs"
            by (simp add: strip_final_newline_def)
          have nd: "\<not> is_digit (CHR 0x0A)" by (simp add: is_digit_def)
          have "takeWhile is_digit ((c # butlast cs) @ [CHR 0x0A]) = (c # butlast cs) @ takeWhile is_digit [CHR 0x0A]"
            by (rule takeWhile_append2) (use a sb in \<open>auto simp: list_all_iff\<close>)
          then have r: "run = c # butlast cs" using cs nd unfolding run_def by (metis append_Cons append_Nil2 takeWhile.simps)
          have "dropWhile is_digit ((c # butlast cs) @ [CHR 0x0A]) = dropWhile is_digit [CHR 0x0A]"
            by (rule dropWhile_append2) (use a sb in \<open>auto simp: list_all_iff\<close>)
          then have "rest = [CHR 0x0A]" using cs nd unfolding rest_def by (metis append_Cons dropWhile.simps)
          with r other show False by simp
        next
          case nonl: False
          then have "strip_final_newline cs = cs" by (simp add: strip_final_newline_def)
          with a have d: "list_all is_digit (c # cs)" by simp
          then have "run = c # cs" "rest = []"
            by (simp_all add: run_def rest_def list_all_iff takeWhile_eq_all_conv[THEN iffD2])
          with other show False by simp
        qed
      qed
      then show ?thesis
        using trailing_digit_run_Cons strip_final_newline_Cons[OF False] by simp
    qed
    with step Cons.IH show ?thesis by simp
  qed
qed


subsection \<open>One frame entry in the XDTS loop\<close>

lemma XDTS_frames_append:
  "XDTS_frames (pre @ post) vars =
     (case XDTS_frames pre vars of
        (Inl e, printed) \<Rightarrow> (Inl e, printed)
      | (Inr vars', printed) \<Rightarrow>
          (case XDTS_frames post vars' of (r, printed') \<Rightarrow> (r, printed @ printed')))"
proof (induction pre arbitrary: vars)
  case Nil
  show ?case by (simp split: prod.splits)
next
  case (Cons fr pre)
  show ?case
  proof (cases "XDTS_frame fr vars")
    case (Pair r printed)
    show ?thesis
    proof (cases r)
      case (Inl e)
      with Pair show ?thesis by simp
    next
      case (Inr vars')
      with Pair Cons.IH[of vars'] show ?thesis
        by (simp split: prod.splits sum.splits)
    qed
  qed
qed

lemma XDTS_frame_tick: "tick fr \<Longrightarrow> XDTS_frame fr (cv, fs) = (Inr (cv, fs), [])"
  by (auto simp: XDTS_frame_def tick_def)

lemma XDTS_frames_ticks: "list_all tick pre \<Longrightarrow> XDTS_frames pre (cv, fs) = (Inr (cv, fs), [])"
  by (induction pre) (simp_all add: XDTS_frame_tick)




lemma XDTS_frame_no_number:
  assumes "entry_value fr \<noteq> ''SYMBOL_NULL_CELL''" and "\<not> tick fr"
    and "trailing_digit_run (strip_final_newline (entry_value fr)) = []"
  shows "XDTS_frame fr (cv, fs) =
           (case cv of
              None \<Rightarrow> (Inl UnboundLocalError, [PyException (''NotNumberError:'' @ entry_value fr)])
            | Some c \<Rightarrow> (Inr (Some c, fs @ [Frame (entry_frame fr) c]),
                         [PyException (''NotNumberError:'' @ entry_value fr)]))"
proof -
  have "re_num_search (entry_value fr) = None" using assms(3) by (simp add: re_num_search_eq)
  then show ?thesis using assms(1,2) by (simp add: XDTS_frame_def tick_def)
qed

section \<open>The invariants of a constructed Timesheet\<close>

lemma no_equal_neighbours_distinct_adj: "no_equal_neighbours fs = distinct_adj (map cell fs)"
  by (induction fs rule: no_equal_neighbours.induct) (simp_all add: distinct_adj_Cons)

lemma no_equal_neighbours_nth:
  "no_equal_neighbours fs = (\<forall>i. Suc i < length fs \<longrightarrow> cell (fs ! i) \<noteq> cell (fs ! Suc i))"
  unfolding no_equal_neighbours_distinct_adj distinct_adj_def successively_conv_nth
  by (simp add: nth_map)

lemma Timesheet_init_invariant:
  assumes "Timesheet_init p n fc ls = Inr ts" and "l \<in> set (layers ts)"
  shows "no_equal_neighbours (frames l)"
proof -
  have "normalize_layers ls = Inr (layers ts)" using assms(1) by (rule Timesheet_init_layers)
  then obtain fs where "normalize fs = Inr (frames l)"
    using assms(2) normalize_layers_frames by blast
  then show ?thesis
    by (simp add: no_equal_neighbours_distinct_adj normalize_distinct_adj)
qed

lemma TDTS_constructed:
  "fst (TDTS p sn tt) = Inr ts \<Longrightarrow> \<exists>n fc ls. Timesheet_init p n fc ls = Inr ts"
  unfolding TDTS_def by (auto split: prod.splits sum.splits)

lemma XDTS_constructed:
  "fst (XDTS p tt) = Inr ts \<Longrightarrow> \<exists>n fc ls. Timesheet_init p n fc ls = Inr ts"
  unfolding XDTS_def by (auto split: prod.splits sum.splits)

text \<open>
  Claim C4. In every Timesheet that one of the three readers constructs, no layer has two
  consecutive frames with the same cell.
\<close>

theorem no_consecutive_duplicates:
  "(STS sjis p f = Inr ts \<longrightarrow> list_all (\<lambda>l. no_equal_neighbours (frames l)) (layers ts)) \<and>
   (fst (TDTS p sn tt) = Inr ts \<longrightarrow> list_all (\<lambda>l. no_equal_neighbours (frames l)) (layers ts)) \<and>
   (fst (XDTS p tt) = Inr ts \<longrightarrow> list_all (\<lambda>l. no_equal_neighbours (frames l)) (layers ts))"
  unfolding list_all_iff
  using STS_constructed TDTS_constructed XDTS_constructed Timesheet_init_invariant
  by blast

theorem no_consecutive_duplicates_witness:
  "STS ascii_codec (Path ''a.sts'' ''a.sts'')
      ([0] @ magic_bytes @ [1, 4, 0, 0, 0, 5, 0, 5, 0, 7, 0, 7, 0, 1, 0x41])
     = Inr \<lparr>path = Path ''a.sts'' ''a.sts'', sheet_name = ''a.sts'', frame_count = 4,
             layers = [Layer ''A'' [Frame 0 5, Frame 2 7]]\<rparr> \<and>
   list_all (\<lambda>l. no_equal_neighbours (frames l)) [Layer ''A'' [Frame 0 5, Frame 2 7]] \<and>
   fst (TDTS (Path ''a.tdts'' ''a.tdts'') ''c1''
         (TimeTable ''t'' 24
            [Field 4 [Track 0 [FrameEntry 3 ''SYMBOL_NULL_CELL'', FrameEntry 5 ''abc'',
                               FrameEntry 6 ''12'', FrameEntry 7 ''12'']]]
            [Header 4 [''A'']]))
     = Inr \<lparr>path = Path ''a.tdts'' ''a.tdts'', sheet_name = ''a.tdts->c1->t'', frame_count = 24,
             layers = [Layer ''A'' [Frame 0 0, Frame 6 12]]\<rparr> \<and>
   list_all (\<lambda>l. no_equal_neighbours (frames l)) [Layer ''A'' [Frame 0 0, Frame 6 12]] \<and>
   fst (XDTS (Path ''a.xdts'' ''a.xdts'')
         (TimeTable ''t'' 24
            [Field 0 [Track 0 [FrameEntry 0 ''1''],
                      Track 1 [FrameEntry 0 ''SYMBOL_TICK_1'', FrameEntry 2 ''abc'', FrameEntry 3 ''4'']]]
            [Header 0 [''A'', ''B'']]))
     = Inr \<lparr>path = Path ''a.xdts'' ''a.xdts'', sheet_name = ''a.xdts->t'', frame_count = 24,
             layers = [Layer ''A'' [Frame 0 1], Layer ''B'' [Frame 0 0, Frame 2 1, Frame 3 4]]\<rparr> \<and>
   list_all (\<lambda>l. no_equal_neighbours (frames l))
     [Layer ''A'' [Frame 0 1], Layer ''B'' [Frame 0 0, Frame 2 1, Frame 3 4]]"
proof -
  let ?s = "\<lparr>path = Path ''a.sts'' ''a.sts'', sheet_name = ''a.sts'', frame_count = 4,
             layers = [Layer ''A'' [Frame 0 5, Frame 2 7]]\<rparr>"
  let ?t = "\<lparr>path = Path ''a.tdts'' ''a.tdts'', sheet_name = ''a.tdts->c1->t'', frame_count = 24,
             layers = [Layer ''A'' [Frame 0 0, Frame 6 12]]\<rparr>"
  let ?x = "\<lparr>path = Path ''a.xdts'' ''a.xdts'', sheet_name = ''a.xdts->t'', frame_count = 24,
             layers = [Layer ''A'' [Frame 0 1], Layer ''B'' [Frame 0 0, Frame 2 1, Frame 3 4]]\<rparr>"
  let ?tt = "TimeTable ''t'' 24
            [Field 4 [Track 0 [FrameEntry 3 ''SYMBOL_NULL_CELL'', FrameEntry 5 ''abc'',
                               FrameEntry 6 ''12'', FrameEntry 7 ''12'']]]
            [Header 4 [''A'']]"
  let ?xt = "TimeTable ''t'' 24
            [Field 0 [Track 0 [FrameEntry 0 ''1''],
                      Track 1 [FrameEntry 0 ''SYMBOL_TICK_1'', FrameEntry 2 ''abc'', FrameEntry 3 ''4'']]]
            [Header 0 [''A'', ''B'']]"
  have s: "STS ascii_codec (Path ''a.sts'' ''a.sts'')
      ([0] @ magic_bytes @ [1, 4, 0, 0, 0, 5, 0, 5, 0, 7, 0, 7, 0, 1, 0x41]) = Inr ?s"
    by code_simp
  have t: "fst (TDTS (Path ''a.tdts'' ''a.tdts'') ''c1'' ?tt) = Inr ?t"
    by code_simp
  have x: "fst (XDTS (Path ''a.xdts'' ''a.xdts'') ?xt) = Inr ?x"
    by code_simp
  show ?thesis
    using s t x
      no_consecutive_duplicates[of ascii_codec "Path ''a.sts'' ''a.sts''"
        "[0] @ magic_bytes @ [1, 4, 0, 0, 0, 5, 0, 5, 0, 7, 0, 7, 0, 1, 0x41]" ?s]
      no_consecutive_duplicates[of _ "Path ''a.tdts'' ''a.tdts''" _ ?t "''c1''" ?tt]
      no_consecutive_duplicates[of _ "Path ''a.xdts'' ''a.xdts''" _ ?x _ ?xt]
    by simp
qed

text \<open>
  Claim C5. Normalization is idempotent: normalizing the result of a normalization gives
  that result again. On the empty sequence the first normalization already raises, and so
  does the composition. The same holds for the layers of a Timesheet taken together.
\<close>

theorem normalization_idempotent:
  "(case normalize fs of Inl e \<Rightarrow> Inl e | Inr gs \<Rightarrow> normalize gs) = normalize fs \<and>
   (case normalize_layers ls of Inl e \<Rightarrow> Inl e | Inr ls' \<Rightarrow> normalize_layers ls') = normalize_layers ls"
proof
  show "(case normalize fs of Inl e \<Rightarrow> Inl e | Inr gs \<Rightarrow> normalize gs) = normalize fs"
    by (cases "normalize fs") (simp_all add: normalize_fixed)
  show "(case normalize_layers ls of Inl e \<Rightarrow> Inl e | Inr ls' \<Rightarrow> normalize_layers ls') = normalize_layers ls"
    by (cases "normalize_layers ls") (simp_all add: normalize_layers_fixed)
qed

section \<open>Values in the XDTS reader\<close>




text \<open>
  Claim C3 says that every value that is no sentinel and has no trailing run of digits is
  reported and appended with the stale cell. The pattern's \<^verbatim>\<open>$\<close> also accepts the place
  before a newline that ends the value: the value \<^verbatim>\<open>7\<close> followed by a newline has no
  trailing run of digits, yet it is read as cell 7, nothing is reported, and the cell 5
  computed before is not used.
\<close>

theorem XDTS_stale_cell_counterexample:
  "[CHR ''7'', CHR 0x0A] \<notin> set [''SYMBOL_NULL_CELL'', ''SYMBOL_TICK_1'', ''SYMBOL_TICK_2'', ''SYMBOL_HYPHEN''] \<and>
   trailing_digit_run [CHR ''7'', CHR 0x0A] = [] \<and>
   XDTS_frames [FrameEntry 2 [CHR ''7'', CHR 0x0A]] (Some 5, [Frame 1 5])
     = (Inr (Some 7, [Frame 1 5, Frame 2 7]), [])"
  by code_simp

text \<open>
  Claim C3, amended. Let the entries \<open>pre\<close> of a track have been read, with the variable
  \<^verbatim>\<open>cell\<close> now holding \<open>c\<close>. An entry whose value is no sentinel and has no trailing run of
  digits, also not when one final newline is left out, is reported as
  \<^verbatim>\<open>NotNumberError:\<close> followed by the value, and is appended with the cell \<open>c\<close>; the loop
  goes on with the next entry.
\<close>

theorem XDTS_stale_cell:
  assumes "XDTS_frames pre vars = (Inr (Some c, fs), printed)"
    and "entry_value fr \<notin> {''SYMBOL_NULL_CELL'', ''SYMBOL_TICK_1'', ''SYMBOL_TICK_2'', ''SYMBOL_HYPHEN''}"
    and "trailing_digit_run (strip_final_newline (entry_value fr)) = []"
  shows "XDTS_frames (pre @ fr # rest) vars =
           (case XDTS_frames rest (Some c, fs @ [Frame (entry_frame fr) c]) of
              (r, printed') \<Rightarrow>
                (r, printed @ PyException (''NotNumberError:'' @ entry_value fr) # printed'))"
proof -
  have n: "entry_value fr \<noteq> ''SYMBOL_NULL_CELL''" and t: "\<not> tick fr"
    using assms(2) by (simp_all add: tick_def)
  have "XDTS_frame fr (Some c, fs) =
          (Inr (Some c, fs @ [Frame (entry_frame fr) c]),
           [PyException (''NotNumberError:'' @ entry_value fr)])"
    using XDTS_frame_no_number[OF n t assms(3), of "Some c" fs] by simp
  then have "XDTS_frames (fr # rest) (Some c, fs) =
          (case XDTS_frames rest (Some c, fs @ [Frame (entry_frame fr) c]) of
              (r, printed') \<Rightarrow> (r, PyException (''NotNumberError:'' @ entry_value fr) # printed'))"
    by simp
  then show ?thesis
    using assms(1) by (simp add: XDTS_frames_append[of pre] split: prod.splits)
qed

theorem XDTS_stale_cell_witness:
  "XDTS_frames [FrameEntry 1 ''5''] (None, []) = (Inr (Some 5, [Frame 1 5]), []) \<and>
   ''abc'' \<notin> {''SYMBOL_NULL_CELL'', ''SYMBOL_TICK_1'', ''SYMBOL_TICK_2'', ''SYMBOL_HYPHEN''} \<and>
   trailing_digit_run (strip_final_newline ''abc'') = [] \<and>
   XDTS_frames ([FrameEntry 1 ''5''] @ FrameEntry 2 ''abc'' # []) (None, [])
     = (Inr (Some 5, [Frame 1 5, Frame 2 5]), [PyException ''NotNumberError:abc''])"
proof -
  have a: "XDTS_frames [FrameEntry 1 ''5''] (None, []) = (Inr (Some 5, [Frame 1 5]), [])"
    by code_simp
  have b: "''abc'' \<notin> {''SYMBOL_NULL_CELL'', ''SYMBOL_TICK_1'', ''SYMBOL_TICK_2'', ''SYMBOL_HYPHEN''}"
    by simp
  have c: "trailing_digit_run (strip_final_newline ''abc'') = []"
    by code_simp
  show ?thesis
    using a b c XDTS_stale_cell[of "[FrameEntry 1 ''5'']" "(None, [])" 5 "[Frame 1 5]" "[]"
                  "FrameEntry 2 ''abc''" "[]"]
    by simp
qed

subsection \<open>The first value of a table\<close>

lemma XDTS_tracks_skip:
  assumes "\<forall>t\<in>set before. (\<exists>nm. getitem ns (trackNo t) = Inr nm) \<and> list_all tick (track_frames t)"
  shows "\<exists>ls'. XDTS_tracks ns (before @ rest) (cv, ls) = XDTS_tracks ns rest (cv, ls')"
  using assms
proof (induction before arbitrary: ls)
  case Nil
  show ?case by (rule exI[of _ ls]) simp
next
  case (Cons t before)
  from Cons.prems obtain nm where nm: "getitem ns (trackNo t) = Inr nm"
    and ticks: "list_all tick (track_frames t)" by auto
  have step: "XDTS_tracks ns ((t # before) @ rest) (cv, ls)
          = XDTS_tracks ns (before @ rest) (cv, ls @ [Layer nm []])"
    using nm XDTS_frames_ticks[OF ticks, of cv "[]"] by (simp split: prod.splits)
  from Cons.prems have "\<forall>t\<in>set before. (\<exists>nm. getitem ns (trackNo t) = Inr nm) \<and> list_all tick (track_frames t)"
    by simp
  from Cons.IH[OF this, of "ls @ [Layer nm []]"] step show ?case by auto
qed

lemma load_xdts_fails:
  assumes "fst (XDTS p tt) = Inl e"
  shows "\<exists>e'. fst (load_xdts p (earlier @ tt # later)) = Inl e'"
proof (induction earlier)
  case Nil
  obtain r printed where x: "XDTS p tt = (r, printed)" by (cases "XDTS p tt")
  with assms have "r = Inl e" by simp
  with x show ?case by simp
next
  case (Cons t earlier)
  then obtain e' where e': "fst (load_xdts p (earlier @ tt # later)) = Inl e'" by blast
  obtain r' printed' where l: "load_xdts p (earlier @ tt # later) = (r', printed')"
    by (cases "load_xdts p (earlier @ tt # later)")
  with e' have r': "r' = Inl e'" by simp
  obtain r printed where x: "XDTS p t = (r, printed)" by (cases "XDTS p t")
  show ?case
  proof (cases r)
    case (Inl a)
    with x show ?thesis by simp
  next
    case (Inr ts)
    with x l r' show ?thesis by simp
  qed
qed

lemma load_xdts_fails_at:
  assumes "fst (XDTS p tt) = Inl e"
    and "\<forall>t\<in>set earlier. \<exists>ts. fst (XDTS p t) = Inr ts"
  shows "fst (load_xdts p (earlier @ tt # later)) = Inl e"
  using assms(2)
proof (induction earlier)
  case Nil
  obtain r printed where x: "XDTS p tt = (r, printed)" by (cases "XDTS p tt")
  with assms(1) have "r = Inl e" by simp
  with x show ?case by simp
next
  case (Cons t earlier)
  then have "fst (load_xdts p (earlier @ tt # later)) = Inl e" by simp
  moreover obtain r' printed' where l: "load_xdts p (earlier @ tt # later) = (r', printed')"
    by (cases "load_xdts p (earlier @ tt # later)")
  ultimately have r': "r' = Inl e" by simp
  from Cons.prems obtain ts where "fst (XDTS p t) = Inr ts" by auto
  moreover obtain r printed where x: "XDTS p t = (r, printed)" by (cases "XDTS p t")
  ultimately have "r = Inr ts" by simp
  with x l r' show ?case by simp
qed

text \<open>
  Claim C10 says that the table fails when the first value appended is no sentinel and has
  no trailing run of digits. As for C3, a value that ends in digits and one newline has no
  trailing run of digits and is yet read as a number: the table whose only value is \<^verbatim>\<open>7\<close>
  followed by a newline is constructed.
\<close>

theorem XDTS_unbound_cell_counterexample:
  "[CHR ''7'', CHR 0x0A] \<notin> set [''SYMBOL_NULL_CELL'', ''SYMBOL_TICK_1'', ''SYMBOL_TICK_2'', ''SYMBOL_HYPHEN''] \<and>
   trailing_digit_run [CHR ''7'', CHR 0x0A] = [] \<and>
   XDTS (Path ''a.xdts'' ''a.xdts'')
     (TimeTable ''t'' 24 [Field 0 [Track 0 [FrameEntry 0 [CHR ''7'', CHR 0x0A]]]] [Header 0 [''A'']])
     = (Inr \<lparr>path = Path ''a.xdts'' ''a.xdts'', sheet_name = ''a.xdts->t'', frame_count = 24,
              layers = [Layer ''A'' [Frame 0 7]]\<rparr>, [])"
  by code_simp

text \<open>
  Claim C10, amended. Let the table have a first field and a header for it, let every
  track before the track \<open>tr\<close> have a name and nothing but skipped values, and let the
  entries of \<open>tr\<close> before \<open>fr\<close> be skipped values too, so that \<open>fr\<close> is the first entry to
  reach \<^verbatim>\<open>frames.append\<close>. When the value of \<open>fr\<close> is no sentinel and has no trailing run of
  digits, also not when one final newline is left out, the constructor raises
  \<^verbatim>\<open>UnboundLocalError\<close> after it has reported the value. The load of a file that holds
  the table fails as a whole and returns no Timesheet, whatever tables stand before and
  after it; it fails with this \<^verbatim>\<open>UnboundLocalError\<close> when the tables before it are
  constructed, in particular when the table is the first.
\<close>

theorem XDTS_unbound_cell:
  assumes "fields tt = field # other_fields"
    and "find (\<lambda>h. header_fieldId h = fieldId field) (timeTableHeaders tt) = Some h"
    and "tracks field = before @ tr # after"
    and "\<forall>t\<in>set before. (\<exists>nm. getitem (names h) (trackNo t) = Inr nm) \<and> list_all tick (track_frames t)"
    and "getitem (names h) (trackNo tr) = Inr nm"
    and "track_frames tr = pre @ fr # post"
    and "list_all tick pre"
    and "entry_value fr \<notin> {''SYMBOL_NULL_CELL'', ''SYMBOL_TICK_1'', ''SYMBOL_TICK_2'', ''SYMBOL_HYPHEN''}"
    and "trailing_digit_run (strip_final_newline (entry_value fr)) = []"
  shows "XDTS p tt = (Inl UnboundLocalError, [PyException (''NotNumberError:'' @ entry_value fr)]) \<and>
         load_xdts p (tt # tts) = (Inl UnboundLocalError, [PyException (''NotNumberError:'' @ entry_value fr)]) \<and>
         (\<exists>e. fst (load_xdts p (others @ tt # later)) = Inl e) \<and>
         ((\<forall>t\<in>set earlier. \<exists>ts. fst (XDTS p t) = Inr ts) \<longrightarrow>
            fst (load_xdts p (earlier @ tt # later)) = Inl UnboundLocalError)"
proof -
  let ?d = "[PyException (''NotNumberError:'' @ entry_value fr)]"
  have n: "entry_value fr \<noteq> ''SYMBOL_NULL_CELL''" and t: "\<not> tick fr"
    using assms(8) by (simp_all add: tick_def)
  have one: "XDTS_frame fr (None, []) = (Inl UnboundLocalError, ?d)"
    using XDTS_frame_no_number[OF n t assms(9), of None "[]"] by simp
  have frames: "XDTS_frames (pre @ fr # post) (None, []) = (Inl UnboundLocalError, ?d)"
    using XDTS_frames_ticks[OF assms(7), of None "[]"] one
    by (simp add: XDTS_frames_append[of pre])
  have track: "XDTS_tracks (names h) (tr # after) (None, ls) = (Inl UnboundLocalError, ?d)" for ls
    using assms(5,6) frames by simp
  obtain ls' where "XDTS_tracks (names h) (before @ tr # after) (None, [])
      = XDTS_tracks (names h) (tr # after) (None, ls')"
    using XDTS_tracks_skip[OF assms(4)] by blast
  with track have all: "XDTS_tracks (names h) (tracks field) (None, []) = (Inl UnboundLocalError, ?d)"
    using assms(3) by simp
  have "getitem (fields tt) 0 = Inr field"
    using assms(1) getitem_nat[of 0 "fields tt"] by simp
  then have "XDTS_read tt = (Inl UnboundLocalError, ?d)"
    using assms(2) all by (simp add: XDTS_read_def)
  then have x: "XDTS p tt = (Inl UnboundLocalError, ?d)"
    by (simp add: XDTS_def)
  then have f: "fst (XDTS p tt) = Inl UnboundLocalError" by simp
  have any: "\<exists>e. fst (load_xdts p (others @ tt # later)) = Inl e"
    using f by (rule load_xdts_fails)
  have at: "(\<forall>t\<in>set earlier. \<exists>ts. fst (XDTS p t) = Inr ts) \<longrightarrow>
            fst (load_xdts p (earlier @ tt # later)) = Inl UnboundLocalError"
    using load_xdts_fails_at[OF f] by blast
  from x any at show ?thesis by simp
qed

theorem XDTS_unbound_cell_witness:
  "fields (TimeTable ''t'' 24
      [Field 0 [Track 0 [FrameEntry 0 ''SYMBOL_HYPHEN''],
                Track 1 [FrameEntry 0 ''SYMBOL_TICK_1'', FrameEntry 2 ''abc'', FrameEntry 3 ''4'']]]
      [Header 0 [''A'', ''B'']])
     = Field 0 [Track 0 [FrameEntry 0 ''SYMBOL_HYPHEN''],
                Track 1 [FrameEntry 0 ''SYMBOL_TICK_1'', FrameEntry 2 ''abc'', FrameEntry 3 ''4'']] # [] \<and>
   find (\<lambda>h. header_fieldId h = 0) [Header 0 [''A'', ''B'']] = Some (Header 0 [''A'', ''B'']) \<and>
   getitem [''A'', ''B''] 0 = Inr ''A'' \<and> list_all tick [FrameEntry 0 ''SYMBOL_HYPHEN''] \<and>
   getitem [''A'', ''B''] 1 = Inr ''B'' \<and> list_all tick [FrameEntry 0 ''SYMBOL_TICK_1''] \<and>
   ''abc'' \<notin> {''SYMBOL_NULL_CELL'', ''SYMBOL_TICK_1'', ''SYMBOL_TICK_2'', ''SYMBOL_HYPHEN''} \<and>
   trailing_digit_run (strip_final_newline ''abc'') = [] \<and>
   XDTS (Path ''a.xdts'' ''a.xdts'')
     (TimeTable ''t'' 24
        [Field 0 [Track 0 [FrameEntry 0 ''SYMBOL_HYPHEN''],
                  Track 1 [FrameEntry 0 ''SYMBOL_TICK_1'', FrameEntry 2 ''abc'', FrameEntry 3 ''4'']]]
        [Header 0 [''A'', ''B'']])
     = (Inl UnboundLocalError, [PyException ''NotNumberError:abc'']) \<and>
   load_xdts (Path ''a.xdts'' ''a.xdts'')
     [TimeTable ''t'' 24
        [Field 0 [Track 0 [FrameEntry 0 ''SYMBOL_HYPHEN''],
                  Track 1 [FrameEntry 0 ''SYMBOL_TICK_1'', FrameEntry 2 ''abc'', FrameEntry 3 ''4'']]]
        [Header 0 [''A'', ''B'']]]
     = (Inl UnboundLocalError, [PyException ''NotNumberError:abc'']) \<and>
   fst (XDTS (Path ''a.xdts'' ''a.xdts'')
         (TimeTable ''s'' 12 [Field 0 [Track 0 [FrameEntry 0 ''1'']]] [Header 0 [''A'']]))
     = Inr \<lparr>path = Path ''a.xdts'' ''a.xdts'', sheet_name = ''a.xdts->s'', frame_count = 12,
             layers = [Layer ''A'' [Frame 0 1]]\<rparr> \<and>
   fst (load_xdts (Path ''a.xdts'' ''a.xdts'')
         ([TimeTable ''s'' 12 [Field 0 [Track 0 [FrameEntry 0 ''1'']]] [Header 0 [''A'']]]
          @ TimeTable ''t'' 24
              [Field 0 [Track 0 [FrameEntry 0 ''SYMBOL_HYPHEN''],
                        Track 1 [FrameEntry 0 ''SYMBOL_TICK_1'', FrameEntry 2 ''abc'', FrameEntry 3 ''4'']]]
              [Header 0 [''A'', ''B'']]
          # [TimeTable ''s'' 12 [Field 0 [Track 0 [FrameEntry 0 ''1'']]] [Header 0 [''A'']]]))
     = Inl UnboundLocalError"
proof -
  let ?good = "TimeTable ''s'' 12 [Field 0 [Track 0 [FrameEntry 0 ''1'']]] [Header 0 [''A'']]"
  have good: "fst (XDTS (Path ''a.xdts'' ''a.xdts'') ?good)
     = Inr \<lparr>path = Path ''a.xdts'' ''a.xdts'', sheet_name = ''a.xdts->s'', frame_count = 12,
             layers = [Layer ''A'' [Frame 0 1]]\<rparr>"
    by code_simp
  then have earlier: "\<forall>t\<in>set [?good]. \<exists>ts. fst (XDTS (Path ''a.xdts'' ''a.xdts'') t) = Inr ts"
    by simp
  let ?field = "Field 0 [Track 0 [FrameEntry 0 ''SYMBOL_HYPHEN''],
                Track 1 [FrameEntry 0 ''SYMBOL_TICK_1'', FrameEntry 2 ''abc'', FrameEntry 3 ''4'']]"
  let ?h = "Header 0 [''A'', ''B'']"
  let ?tt = "TimeTable ''t'' 24 [?field] [?h]"
  have h1: "fields ?tt = ?field # []" by simp
  have h2: "find (\<lambda>h. header_fieldId h = fieldId ?field) (timeTableHeaders ?tt) = Some ?h" by simp
  have h3: "tracks ?field = [Track 0 [FrameEntry 0 ''SYMBOL_HYPHEN'']]
              @ Track 1 [FrameEntry 0 ''SYMBOL_TICK_1'', FrameEntry 2 ''abc'', FrameEntry 3 ''4''] # []"
    by simp
  have g0: "getitem [''A'', ''B''] 0 = Inr ''A''" by code_simp
  have g1: "getitem [''A'', ''B''] 1 = Inr ''B''" by code_simp
  have t0: "list_all tick [FrameEntry 0 ''SYMBOL_HYPHEN'']" by code_simp
  have t1: "list_all tick [FrameEntry 0 ''SYMBOL_TICK_1'']" by code_simp
  have h4: "\<forall>t\<in>set [Track 0 [FrameEntry 0 ''SYMBOL_HYPHEN'']].
              (\<exists>nm. getitem (names ?h) (trackNo t) = Inr nm) \<and> list_all tick (track_frames t)"
    using g0 t0 by simp
  have h5: "getitem (names ?h) (trackNo (Track 1 [FrameEntry 0 ''SYMBOL_TICK_1'', FrameEntry 2 ''abc'', FrameEntry 3 ''4''])) = Inr ''B''"
    using g1 by simp
  have h6: "track_frames (Track 1 [FrameEntry 0 ''SYMBOL_TICK_1'', FrameEntry 2 ''abc'', FrameEntry 3 ''4''])
             = [FrameEntry 0 ''SYMBOL_TICK_1''] @ FrameEntry 2 ''abc'' # [FrameEntry 3 ''4'']"
    by simp
  have h8: "entry_value (FrameEntry 2 ''abc'') \<notin> {''SYMBOL_NULL_CELL'', ''SYMBOL_TICK_1'', ''SYMBOL_TICK_2'', ''SYMBOL_HYPHEN''}"
    by simp
  have c: "trailing_digit_run (strip_final_newline ''abc'') = []" by code_simp
  then have h9: "trailing_digit_run (strip_final_newline (entry_value (FrameEntry 2 ''abc''))) = []"
    by simp
  note inst = XDTS_unbound_cell[OF h1 h2 h3 h4 h5 h6 t1 h8 h9,
      where p = "Path ''a.xdts'' ''a.xdts''" and tts = "[]" and others = "[]"
        and earlier = "[?good]" and later = "[?good]"]
  from inst earlier have l: "fst (load_xdts (Path ''a.xdts'' ''a.xdts'') ([?good] @ ?tt # [?good]))
      = Inl UnboundLocalError"
    by blast
  show ?thesis
    using g0 g1 t0 t1 c good l inst
    by simp
qed

section \<open>Values in the TDTS reader\<close>

text \<open>
  In the loop over the frame entries of a track: \<^verbatim>\<open>SYMBOL_NULL_CELL\<close> appends the entry's
  frame with cell 0, a value that \<^verbatim>\<open>int()\<close> accepts appends the frame with that number,
  and a value that \<^verbatim>\<open>int()\<close> rejects is reported and appends nothing; in each case the
  loop goes on with the next entry. The reading of the tracks raises nothing but the
  \<^verbatim>\<open>IndexError\<close> of a track number without a name.
\<close>

lemma TDTS_frames_append:
  "TDTS_frames (pre @ post) fs =
     (case TDTS_frames pre fs of
        (fs', printed) \<Rightarrow> (case TDTS_frames post fs' of (r, printed') \<Rightarrow> (r, printed @ printed')))"
proof (induction pre arbitrary: fs)
  case Nil
  show ?case by (simp split: prod.splits)
next
  case (Cons fr pre)
  show ?case
    by (simp add: Cons.IH split: prod.splits sum.splits)
qed

lemma TDTS_value_mapping:
  "(entry_value fr = ''SYMBOL_NULL_CELL'' \<longrightarrow>
      TDTS_frames (fr # rest) fs = TDTS_frames rest (fs @ [Frame (entry_frame fr) 0])) \<and>
   (entry_value fr \<noteq> ''SYMBOL_NULL_CELL'' \<and> py_int (entry_value fr) = Inr c \<longrightarrow>
      TDTS_frames (fr # rest) fs = TDTS_frames rest (fs @ [Frame (entry_frame fr) c])) \<and>
   (entry_value fr \<noteq> ''SYMBOL_NULL_CELL'' \<and> py_int (entry_value fr) = Inl e \<longrightarrow>
      TDTS_frames (fr # rest) fs = (fst (TDTS_frames rest fs), e # snd (TDTS_frames rest fs)))"
  by (simp split: prod.splits)

lemma TDTS_tracks_errors: "fst (TDTS_tracks ns trs ls) = Inl e \<Longrightarrow> e = IndexError"
proof (induction trs arbitrary: ls)
  case Nil
  then show ?case by simp
next
  case (Cons tr trs)
  show ?case
  proof (cases "getitem ns (trackNo tr)")
    case (Inl e')
    then have "e' = IndexError" by (auto simp: getitem_def split: option.splits)
    with Inl Cons.prems show ?thesis by simp
  next
    case (Inr nm)
    obtain fs printed where f: "TDTS_frames (track_frames tr) [] = (fs, printed)"
      by (cases "TDTS_frames (track_frames tr) []")
    have "fst (TDTS_tracks ns (tr # trs) ls) = fst (TDTS_tracks ns trs (ls @ [Layer nm fs]))"
      using Inr f by (simp split: prod.splits)
    with Cons.prems Cons.IH[of "ls @ [Layer nm fs]"] show ?thesis by simp
  qed
qed

text \<open>
  Claim C8 says that a value that cannot be parsed is dropped without ever aborting the
  table or the file. The entry is dropped, but a track of which every entry is dropped
  is left with no frames, and the constructor raises \<^verbatim>\<open>IndexError\<close> on it: a table with
  the one value \<^verbatim>\<open>abc\<close> builds no Timesheet.
\<close>

theorem TDTS_unparseable_only:
  "TDTS (Path ''a.tdts'' ''a.tdts'') ''c1''
     (TimeTable ''t'' 24 [Field 4 [Track 0 [FrameEntry 5 ''abc'']]] [Header 4 [''A'']])
   = (Inl IndexError, [ValueError])"
  by code_simp

end
